theory Spec2Isabelle
  imports Complex_Main
begin

section \<open>The tasks table\<close>

text \<open>
  A row of the table \<^verbatim>\<open>tasks\<close>, which is also the dictionary that
  \<^verbatim>\<open>get_all_tasks\<close> and \<^verbatim>\<open>get_task_by_id\<close> build from a row. The columns
  \<^verbatim>\<open>user\<close>, \<^verbatim>\<open>description\<close> and \<^verbatim>\<open>status\<close> are \<^verbatim>\<open>TEXT NOT NULL\<close>;
  \<^verbatim>\<open>timestamp\<close> has a default but may be NULL.
\<close>

record task =
  task_id :: int
  user :: string
  description :: string
  status :: string
  timestamp :: "string option"

text \<open>
  The four status literals of the source, as their UTF-8 bytes:
  \<^verbatim>\<open>ST_PENDING\<close> is the literal of \<^verbatim>\<open>add_task\<close>'s default (waiting),
  \<^verbatim>\<open>ST_IN_PROGRESS\<close> the one written when processing starts,
  \<^verbatim>\<open>ST_DONE\<close> and \<^verbatim>\<open>ST_FAILED\<close> the two outcomes of the draw.
\<close>

definition ST_PENDING :: string where
  "ST_PENDING = [CHR 0xD0, CHR 0x9E, CHR 0xD1, CHR 0x87, CHR 0xD1, CHR 0x96,
                 CHR 0xD0, CHR 0xBA, CHR 0xD1, CHR 0x83, CHR 0xD1, CHR 0x94]"

definition ST_IN_PROGRESS :: string where
  "ST_IN_PROGRESS = [CHR 0xD0, CHR 0x92, CHR 0x20, CHR 0xD0, CHR 0xBF, CHR 0xD1, CHR 0x80,
                     CHR 0xD0, CHR 0xBE, CHR 0xD1, CHR 0x86, CHR 0xD0, CHR 0xB5, CHR 0xD1,
                     CHR 0x81, CHR 0xD1, CHR 0x96]"

definition ST_DONE :: string where
  "ST_DONE = [CHR 0xD0, CHR 0x92, CHR 0xD0, CHR 0xB8, CHR 0xD0, CHR 0xBA, CHR 0xD0, CHR 0xBE,
              CHR 0xD0, CHR 0xBD, CHR 0xD0, CHR 0xB0, CHR 0xD0, CHR 0xBD, CHR 0xD0, CHR 0xBE]"

definition ST_FAILED :: string where
  "ST_FAILED = [CHR 0xD0, CHR 0x9F, CHR 0xD0, CHR 0xBE, CHR 0xD0, CHR 0xBC, CHR 0xD0, CHR 0xB8,
                CHR 0xD0, CHR 0xBB, CHR 0xD0, CHR 0xBA, CHR 0xD0, CHR 0xB0]"

text \<open>
  The database file as far as the program uses it: the rows of \<^verbatim>\<open>tasks\<close> in storage
  order, and the counter that \<^verbatim>\<open>AUTOINCREMENT\<close> keeps of the largest id ever given out.
\<close>

record database =
  tasks :: "task list"
  sqlite_sequence :: int

datatype sqlite3_Error = sqlite3_Error

section \<open>The SQL statements\<close>

text \<open>
  The writing methods run \<^verbatim>\<open>cursor.execute\<close> and then \<^verbatim>\<open>conn.commit\<close> inside one
  \<^verbatim>\<open>try\<close>, and the \<^verbatim>\<open>except\<close> branch does not roll back. Each of the two calls takes
  a flag \<open>raises\<close> chosen by the environment. An \<^verbatim>\<open>execute\<close> that raises has not
  applied its statement. A \<^verbatim>\<open>commit\<close> that raises comes after an \<^verbatim>\<open>execute\<close> that
  did apply it: the change stays on the connection, and the connection is what every
  later statement of the program reads. The \<open>database\<close> of the model is the table as
  the connection sees it. \<open>now\<close> is the value of \<^verbatim>\<open>CURRENT_TIMESTAMP\<close> at the insert.
\<close>

definition new_rowid :: "database \<Rightarrow> int" where
  "new_rowid db = fold max (map task_id (tasks db)) (sqlite_sequence db) + 1"

definition execute_insert ::
  "bool \<Rightarrow> string \<Rightarrow> database \<Rightarrow> string \<Rightarrow> string \<Rightarrow> string \<Rightarrow> sqlite3_Error + database \<times> int" where
  "execute_insert raises now db u d st =
     (if raises then Inl sqlite3_Error
      else let lastrowid = new_rowid db in
        Inr (db\<lparr>tasks := tasks db @
                   [\<lparr>task_id = lastrowid, user = u, description = d, status = st,
                     timestamp = Some now\<rparr>],
                 sqlite_sequence := lastrowid\<rparr>, lastrowid))"

definition execute_update ::
  "bool \<Rightarrow> database \<Rightarrow> string \<Rightarrow> int \<Rightarrow> sqlite3_Error + database \<times> nat" where
  "execute_update raises db new_status i =
     (if raises then Inl sqlite3_Error
      else Inr (db\<lparr>tasks := map (\<lambda>t. if task_id t = i then t\<lparr>status := new_status\<rparr> else t)
                                  (tasks db)\<rparr>,
                length (filter (\<lambda>t. task_id t = i) (tasks db))))"

definition commit :: "bool \<Rightarrow> sqlite3_Error + unit" where
  "commit raises = (if raises then Inl sqlite3_Error else Inr ())"

definition execute_select_all :: "bool \<Rightarrow> database \<Rightarrow> sqlite3_Error + task list" where
  "execute_select_all raises db =
     (if raises then Inl sqlite3_Error else Inr (sort_key task_id (tasks db)))"

definition execute_select_by_id :: "bool \<Rightarrow> database \<Rightarrow> int \<Rightarrow> sqlite3_Error + task option" where
  "execute_select_by_id raises db i =
     (if raises then Inl sqlite3_Error else Inr (find (\<lambda>t. task_id t = i) (tasks db)))"

text \<open>
  What the environment decides during one writing method: nothing raises, the
  \<^verbatim>\<open>execute\<close> raises (the \<^verbatim>\<open>commit\<close> is then not reached), or the \<^verbatim>\<open>commit\<close> raises.
\<close>

datatype fault = No_fault | Execute_raises | Commit_raises

section \<open>DBManager\<close>

text \<open>
  Every method catches \<^verbatim>\<open>sqlite3.Error\<close> and returns a sentinel instead. The database
  returned is the one the statements have left: after a raising \<^verbatim>\<open>commit\<close> it holds the
  change although the sentinel says failure.
\<close>

definition DBManager_add_task ::
  "fault \<Rightarrow> string \<Rightarrow> database \<Rightarrow> string \<Rightarrow> string \<Rightarrow> string \<Rightarrow> database \<times> int option" where
  "DBManager_add_task f now db user_id descr st =
     (case execute_insert (f = Execute_raises) now db user_id descr st of
        Inl e \<Rightarrow> (db, None)
      | Inr (db', lastrowid) \<Rightarrow>
          (case commit (f = Commit_raises) of
             Inl e \<Rightarrow> (db', None)
           | Inr u \<Rightarrow> (db', Some lastrowid)))"

definition DBManager_update_task_status ::
  "fault \<Rightarrow> database \<Rightarrow> int \<Rightarrow> string \<Rightarrow> database \<times> bool" where
  "DBManager_update_task_status f db i new_status =
     (case execute_update (f = Execute_raises) db new_status i of
        Inl e \<Rightarrow> (db, False)
      | Inr (db', rowcount) \<Rightarrow>
          (case commit (f = Commit_raises) of
             Inl e \<Rightarrow> (db', False)
           | Inr u \<Rightarrow> (db', rowcount > 0)))"

definition DBManager_get_all_tasks :: "bool \<Rightarrow> database \<Rightarrow> task list" where
  "DBManager_get_all_tasks raises db =
     (case execute_select_all raises db of Inr rows \<Rightarrow> rows | Inl e \<Rightarrow> [])"

definition DBManager_get_task_by_id :: "bool \<Rightarrow> database \<Rightarrow> int \<Rightarrow> task option" where
  "DBManager_get_task_by_id raises db i =
     (case execute_select_by_id raises db i of Inr row \<Rightarrow> row | Inl e \<Rightarrow> None)"


section \<open>TaskManager\<close>

record task_manager =
  db_manager :: database
  task_queue :: "int list"




text \<open>
  \<^verbatim>\<open>add_task\<close> returns nothing; its effect is the new state. It has no \<^verbatim>\<open>raise\<close>,
  and the only call that could raise is caught inside \<^verbatim>\<open>DBManager.add_task\<close>.
\<close>

definition TaskManager_add_task ::
  "fault \<Rightarrow> string \<Rightarrow> task_manager \<Rightarrow> string \<Rightarrow> string \<Rightarrow> task_manager" where
  "TaskManager_add_task f now tm user_id task_description =
     (case DBManager_add_task f now (db_manager tm) user_id task_description ST_PENDING of
        (db', Some i) \<Rightarrow> tm\<lparr>db_manager := db', task_queue := task_queue tm @ [i]\<rparr>
      | (db', None) \<Rightarrow> tm\<lparr>db_manager := db'\<rparr>)"

text \<open>
  What the environment decides during one \<^verbatim>\<open>process_next_task\<close>: whether the SELECT
  raises, what happens in each of the two \<^verbatim>\<open>update_task_status\<close>, and the value of
  \<^verbatim>\<open>np.random.rand()\<close>, a number in the interval from 0 to 1 that the code compares
  with 0.8; the comparison is taken over the reals.
\<close>

record process_env =
  select_raises :: bool
  update1_fault :: fault
  update2_fault :: fault
  rand :: real

definition TaskManager_process_next_task ::
  "process_env \<Rightarrow> task_manager \<Rightarrow> task_manager \<times> bool" where
  "TaskManager_process_next_task e tm =
     (case task_queue tm of
        [] \<Rightarrow> (tm, False)
      | i # rest \<Rightarrow>
          (case DBManager_get_task_by_id (select_raises e) (db_manager tm) i of
             Some task_info \<Rightarrow>
               (let db1 = fst (DBManager_update_task_status (update1_fault e) (db_manager tm) i
                                 ST_IN_PROGRESS);
                    new_status = (if rand e < 8 / 10 then ST_DONE else ST_FAILED);
                    db2 = fst (DBManager_update_task_status (update2_fault e) db1 i new_status)
                in (tm\<lparr>db_manager := db2, task_queue := rest\<rparr>, True))
           | None \<Rightarrow> (tm\<lparr>task_queue := rest\<rparr>, False)))"


text \<open>
  \<^verbatim>\<open>generate_report\<close> prints two counters and two lists; the model returns them.
  The loop is an \<^verbatim>\<open>if\<close>/\<^verbatim>\<open>elif\<close>/\<^verbatim>\<open>elif\<close> chain with no \<^verbatim>\<open>else\<close>.
\<close>

record report =
  processed_count :: nat
  unprocessed_count :: nat
  processed_list :: "task list"
  unprocessed_list :: "task list"

fun report_loop :: "task list \<Rightarrow> report \<Rightarrow> report" where
  "report_loop [] r = r"
| "report_loop (t # ts) r =
     report_loop ts
       (if status t = ST_DONE then
          r\<lparr>processed_count := processed_count r + 1, processed_list := processed_list r @ [t]\<rparr>
        else if status t = ST_FAILED then
          r\<lparr>unprocessed_count := unprocessed_count r + 1,
            unprocessed_list := unprocessed_list r @ [t]\<rparr>
        else if status t = ST_PENDING \<or> status t = ST_IN_PROGRESS then
          r\<lparr>unprocessed_count := unprocessed_count r + 1,
            unprocessed_list := unprocessed_list r @ [t]\<rparr>
        else r)"

definition TaskManager_generate_report :: "bool \<Rightarrow> task_manager \<Rightarrow> report" where
  "TaskManager_generate_report raises tm =
     report_loop (DBManager_get_all_tasks raises (db_manager tm))
       \<lparr>processed_count = 0, unprocessed_count = 0, processed_list = [], unprocessed_list = []\<rparr>"

section \<open>Sequences of calls\<close>

text \<open>
  A caller's call, with what the environment decides during it:
  \<open>Add_task f now user description\<close> and \<open>Process_next e\<close>.
\<close>

datatype call = Add_task fault string string string | Process_next process_env

fun step :: "task_manager \<Rightarrow> call \<Rightarrow> task_manager" where
  "step tm (Add_task f now u d) = TaskManager_add_task f now tm u d"
| "step tm (Process_next e) = fst (TaskManager_process_next_task e tm)"

fun run :: "task_manager \<Rightarrow> call list \<Rightarrow> task_manager" where
  "run tm [] = tm"
| "run tm (c # cs) = run (step tm c) cs"

text \<open>
  The ids a call appends to the queue (the id \<^verbatim>\<open>DBManager.add_task\<close> returned, if any)
  and the ids it takes with \<^verbatim>\<open>popleft\<close> (the head, if there is one).
\<close>

fun enqueued :: "task_manager \<Rightarrow> call \<Rightarrow> int list" where
  "enqueued tm (Add_task f now u d) =
     (case snd (DBManager_add_task f now (db_manager tm) u d ST_PENDING) of
        Some i \<Rightarrow> [i] | None \<Rightarrow> [])"
| "enqueued tm (Process_next e) = []"

fun dequeued :: "task_manager \<Rightarrow> call \<Rightarrow> int list" where
  "dequeued tm (Add_task f now u d) = []"
| "dequeued tm (Process_next e) = take 1 (task_queue tm)"

fun enqueue_log :: "task_manager \<Rightarrow> call list \<Rightarrow> int list" where
  "enqueue_log tm [] = []"
| "enqueue_log tm (c # cs) = enqueued tm c @ enqueue_log (step tm c) cs"

fun dequeue_log :: "task_manager \<Rightarrow> call list \<Rightarrow> int list" where
  "dequeue_log tm [] = []"
| "dequeue_log tm (c # cs) = dequeued tm c @ dequeue_log (step tm c) cs"


section \<open>Properties of states and transitions\<close>


definition terminal :: "string \<Rightarrow> bool" where
  "terminal st = (st = ST_DONE \<or> st = ST_FAILED)"

definition known_status :: "string \<Rightarrow> bool" where
  "known_status st = (st = ST_PENDING \<or> st = ST_IN_PROGRESS \<or> st = ST_DONE \<or> st = ST_FAILED)"







text \<open>States and environments used as examples.\<close>

definition empty_system :: task_manager where
  "empty_system = \<lparr>db_manager = \<lparr>tasks = [], sqlite_sequence = 0\<rparr>, task_queue = []\<rparr>"

definition one_pending :: task_manager where
  "one_pending =
     \<lparr>db_manager = \<lparr>tasks = [\<lparr>task_id = 1, user = ''UserA'', description = ''report'',
                               status = ST_PENDING, timestamp = Some ''t0''\<rparr>],
                     sqlite_sequence = 1\<rparr>,
      task_queue = [1]\<rparr>"

definition no_fault :: "real \<Rightarrow> process_env" where
  "no_fault r =
     \<lparr>select_raises = False, update1_fault = No_fault, update2_fault = No_fault, rand = r\<rparr>"






definition mixed_store :: task_manager where
  "mixed_store =
     \<lparr>db_manager = \<lparr>tasks =
          [\<lparr>task_id = 2, user = ''UserB'', description = ''project'',
            status = ST_FAILED, timestamp = Some ''t1''\<rparr>,
           \<lparr>task_id = 1, user = ''UserA'', description = ''report'',
            status = ST_DONE, timestamp = Some ''t0''\<rparr>,
           \<lparr>task_id = 3, user = ''UserC'', description = ''email'',
            status = ST_PENDING, timestamp = Some ''t2''\<rparr>],
          sqlite_sequence = 3\<rparr>,
      task_queue = [3]\<rparr>"


definition archived_store :: task_manager where
  "archived_store =
     \<lparr>db_manager = \<lparr>tasks = [\<lparr>task_id = 1, user = ''UserA'', description = ''report'',
                               status = ''Archived'', timestamp = Some ''t0''\<rparr>],
                     sqlite_sequence = 1\<rparr>,
      task_queue = []\<rparr>"

section \<open>Basic facts\<close>

lemma status_literals_distinct:
  "ST_PENDING \<noteq> ST_IN_PROGRESS" "ST_PENDING \<noteq> ST_DONE" "ST_PENDING \<noteq> ST_FAILED"
  "ST_IN_PROGRESS \<noteq> ST_DONE" "ST_IN_PROGRESS \<noteq> ST_FAILED" "ST_DONE \<noteq> ST_FAILED"
  by (simp_all add: ST_PENDING_def ST_IN_PROGRESS_def ST_DONE_def ST_FAILED_def)

lemma fold_max_ge: "(a::int) \<le> fold max xs a"
  by (induction xs arbitrary: a) (auto intro: order_trans [OF max.cobounded2])

lemma fold_max_mem: "x \<in> set xs \<Longrightarrow> (x::int) \<le> fold max xs a"
proof (induction xs arbitrary: a)
  case Nil
  then show ?case by simp
next
  case (Cons y ys)
  show ?case
  proof (cases "x = y")
    case True
    have "y \<le> max y a" by simp
    also have "\<dots> \<le> fold max ys (max y a)" by (rule fold_max_ge)
    finally show ?thesis using True by simp
  next
    case False
    with Cons show ?thesis by simp
  qed
qed

lemma new_rowid_fresh: "t \<in> set (tasks db) \<Longrightarrow> task_id t < new_rowid db"
  using fold_max_mem [of "task_id t" "map task_id (tasks db)" "sqlite_sequence db"]
  by (simp add: new_rowid_def)

text \<open>What one \<^verbatim>\<open>DBManager.add_task\<close> does, by what the environment decided.\<close>

lemma add_task_result:
  "DBManager_add_task f now db u d st =
     (if f = Execute_raises then (db, None)
      else (db\<lparr>tasks := tasks db @ [\<lparr>task_id = new_rowid db, user = u, description = d,
                                       status = st, timestamp = Some now\<rparr>],
               sqlite_sequence := new_rowid db\<rparr>,
            if f = Commit_raises then None else Some (new_rowid db)))"
  by (simp add: DBManager_add_task_def execute_insert_def commit_def Let_def)

text \<open>What one \<^verbatim>\<open>update_task_status\<close> leaves in the table.\<close>

lemma update_tasks:
  "tasks (fst (DBManager_update_task_status f db i st)) =
     (if f = Execute_raises then tasks db
      else map (\<lambda>t. if task_id t = i then t\<lparr>status := st\<rparr> else t) (tasks db))"
  by (simp add: DBManager_update_task_status_def execute_update_def commit_def)

lemma update_sequence:
  "sqlite_sequence (fst (DBManager_update_task_status f db i st)) = sqlite_sequence db"
  by (simp add: DBManager_update_task_status_def execute_update_def commit_def)


section \<open>Processing an empty queue\<close>

text \<open>
  C8: when the queue is empty, \<^verbatim>\<open>process_next_task\<close> returns \<^verbatim>\<open>False\<close> and leaves
  the whole state, the table and the queue, as it was, whatever the environment would do.
\<close>

theorem process_next_empty:
  "task_queue tm = [] \<Longrightarrow> TaskManager_process_next_task e tm = (tm, False)"
  by (simp add: TaskManager_process_next_task_def)

theorem process_next_empty_witness:
  "task_queue \<lparr>db_manager = \<lparr>tasks = [], sqlite_sequence = 0\<rparr>, task_queue = []\<rparr> = []
   \<and> TaskManager_process_next_task
       \<lparr>select_raises = True, update1_fault = Execute_raises, update2_fault = Commit_raises,
        rand = 0\<rparr>
       \<lparr>db_manager = \<lparr>tasks = [], sqlite_sequence = 0\<rparr>, task_queue = []\<rparr>
     = (\<lparr>db_manager = \<lparr>tasks = [], sqlite_sequence = 0\<rparr>, task_queue = []\<rparr>, False)"
  using process_next_empty
    [of "\<lparr>db_manager = \<lparr>tasks = [], sqlite_sequence = 0\<rparr>, task_queue = []\<rparr>"
        "\<lparr>select_raises = True, update1_fault = Execute_raises, update2_fault = Commit_raises,
          rand = 0\<rparr>"]
  by simp

section \<open>A queued id with no row\<close>

lemma find_None_iff_ids: "(find (\<lambda>t. task_id t = i) xs = None) = (i \<notin> task_id ` set xs)"
  by (auto simp: find_None_iff)

text \<open>
  C2: when the head of the queue is an id that no row of the table has,
  \<^verbatim>\<open>process_next_task\<close> returns \<^verbatim>\<open>False\<close> (a returned value, nothing is raised),
  the id is gone from the queue and is not put back, the table is untouched, and the rest
  of the queue is there for the next call. This holds whatever the environment does.
\<close>

theorem process_next_missing:
  assumes "task_queue tm = i # rest" and "i \<notin> task_id ` set (tasks (db_manager tm))"
  shows "TaskManager_process_next_task e tm = (tm\<lparr>task_queue := rest\<rparr>, False)"
proof -
  have "DBManager_get_task_by_id (select_raises e) (db_manager tm) i = None"
    using assms(2)
    by (simp add: DBManager_get_task_by_id_def execute_select_by_id_def find_None_iff_ids)
  then show ?thesis using assms(1) by (simp add: TaskManager_process_next_task_def)
qed

theorem process_next_missing_witness:
  "task_queue (one_pending\<lparr>task_queue := [7, 1]\<rparr>) = [7, 1]
   \<and> 7 \<notin> task_id ` set (tasks (db_manager (one_pending\<lparr>task_queue := [7, 1]\<rparr>)))
   \<and> TaskManager_process_next_task (no_fault (1 / 2)) (one_pending\<lparr>task_queue := [7, 1]\<rparr>)
       = (one_pending, False)"
  using process_next_missing [of "one_pending\<lparr>task_queue := [7, 1]\<rparr>" 7 "[1]" "no_fault (1 / 2)"]
  by (simp add: one_pending_def)

section \<open>Inserting and reading back\<close>

text \<open>
  C10: the insert checks nothing about its text fields. Unless a statement raises,
  \<^verbatim>\<open>DBManager.add_task\<close> appends a row with exactly the given user, description and
  status and returns an id that no row had before; \<^verbatim>\<open>TaskManager.add_task\<close> passes its
  arguments through and enqueues that id. No branch looks at the strings, so this holds
  for empty ones too.
\<close>

theorem add_task_no_validation:
  assumes "f = No_fault"
  shows "DBManager_add_task f now db u d st =
           (db\<lparr>tasks := tasks db @ [\<lparr>task_id = new_rowid db, user = u, description = d,
                                      status = st, timestamp = Some now\<rparr>],
               sqlite_sequence := new_rowid db\<rparr>, Some (new_rowid db))
         \<and> new_rowid db \<notin> task_id ` set (tasks db)
         \<and> TaskManager_add_task f now tm u d =
             tm\<lparr>db_manager := (db_manager tm)\<lparr>tasks := tasks (db_manager tm) @
                     [\<lparr>task_id = new_rowid (db_manager tm), user = u, description = d,
                       status = ST_PENDING, timestamp = Some now\<rparr>],
                   sqlite_sequence := new_rowid (db_manager tm)\<rparr>,
                task_queue := task_queue tm @ [new_rowid (db_manager tm)]\<rparr>"
proof -
  have "new_rowid db \<notin> task_id ` set (tasks db)"
    using new_rowid_fresh [of _ db] by force
  then show ?thesis using assms
    by (simp add: add_task_result TaskManager_add_task_def)
qed

theorem add_task_no_validation_witness:
  "DBManager_add_task No_fault ''t1'' \<lparr>tasks = [], sqlite_sequence = 0\<rparr> [] [] ST_PENDING =
     (\<lparr>tasks = [\<lparr>task_id = 1, user = [], description = [], status = ST_PENDING,
                  timestamp = Some ''t1''\<rparr>], sqlite_sequence = 1\<rparr>, Some 1)
   \<and> TaskManager_add_task No_fault ''t1'' empty_system [] [] =
     \<lparr>db_manager = \<lparr>tasks = [\<lparr>task_id = 1, user = [], description = [],
                                status = ST_PENDING, timestamp = Some ''t1''\<rparr>],
                      sqlite_sequence = 1\<rparr>,
      task_queue = [1]\<rparr>"
  using add_task_no_validation [of No_fault "''t1''" "\<lparr>tasks = [], sqlite_sequence = 0\<rparr>" "[]" "[]"
      ST_PENDING empty_system]
  by (simp add: new_rowid_def empty_system_def)

lemma find_append_fresh:
  "i \<notin> task_id ` set xs \<Longrightarrow> task_id t = i \<Longrightarrow> find (\<lambda>t. task_id t = i) (xs @ [t]) = Some t"
  by (induction xs) auto

text \<open>
  C7: when \<^verbatim>\<open>add_task\<close> with the status the queue manager passes has returned an id,
  \<^verbatim>\<open>get_task_by_id\<close> on that id (its SELECT not raising) returns a task with that id,
  the user and the description given, and the waiting status.
\<close>

theorem add_then_get:
  assumes "DBManager_add_task f now db u d ST_PENDING = (db', Some i)"
    and "\<not> sel_raises"
  shows "\<exists>t. DBManager_get_task_by_id sel_raises db' i = Some t \<and> task_id t = i \<and> user t = u
             \<and> description t = d \<and> status t = ST_PENDING"
proof -
  from assms(1) have i: "i = new_rowid db"
    and db': "tasks db' = tasks db @ [\<lparr>task_id = i, user = u, description = d,
                                       status = ST_PENDING, timestamp = Some now\<rparr>]"
    by (auto simp: add_task_result split: if_splits)
  have "i \<notin> task_id ` set (tasks db)" using new_rowid_fresh [of _ db] i by force
  then show ?thesis using assms(2) db'
    by (simp add: DBManager_get_task_by_id_def execute_select_by_id_def find_append_fresh)
qed

theorem add_then_get_witness:
  "\<exists>t. DBManager_get_task_by_id False
          (fst (DBManager_add_task No_fault ''t1'' (db_manager one_pending) ''UserB'' ''project''
                  ST_PENDING)) 2 = Some t
       \<and> task_id t = 2 \<and> user t = ''UserB'' \<and> description t = ''project''
       \<and> status t = ST_PENDING"
proof -
  have "DBManager_add_task No_fault ''t1'' (db_manager one_pending) ''UserB'' ''project''
          ST_PENDING
        = (fst (DBManager_add_task No_fault ''t1'' (db_manager one_pending) ''UserB''
                  ''project'' ST_PENDING), Some 2)"
    by (simp add: add_task_result new_rowid_def one_pending_def)
  from add_then_get [OF this, of False] show ?thesis by simp
qed

section \<open>Order of the queue\<close>

lemma step_queue: "task_queue tm @ enqueued tm c = dequeued tm c @ task_queue (step tm c)"
proof (cases c)
  case (Add_task f now u d)
  then show ?thesis
    by (cases "DBManager_add_task f now (db_manager tm) u d ST_PENDING")
       (auto simp: TaskManager_add_task_def split: option.splits)
next
  case (Process_next e)
  then show ?thesis
    by (auto simp: TaskManager_process_next_task_def Let_def split: list.splits option.splits)
qed

lemma process_pops_head:
  "task_queue (step tm (Process_next e)) = drop 1 (task_queue tm)"
  by (auto simp: TaskManager_process_next_task_def Let_def split: list.splits option.splits)

lemma add_appends:
  "task_queue (step tm (Add_task f now u d))
     = task_queue tm @ enqueued tm (Add_task f now u d)"
  using step_queue [of tm "Add_task f now u d"] by simp

lemma run_queue:
  "task_queue tm @ enqueue_log tm cs = dequeue_log tm cs @ task_queue (run tm cs)"
proof (induction cs arbitrary: tm)
  case Nil
  show ?case by simp
next
  case (Cons c cs)
  have "task_queue tm @ enqueue_log tm (c # cs)
          = (task_queue tm @ enqueued tm c) @ enqueue_log (step tm c) cs" by simp
  also have "\<dots> = dequeued tm c @ (task_queue (step tm c) @ enqueue_log (step tm c) cs)"
    by (simp add: step_queue)
  also have "\<dots> = dequeued tm c @ dequeue_log (step tm c) cs @ task_queue (run (step tm c) cs)"
    by (simp add: Cons.IH)
  finally show ?case by simp
qed

text \<open>
  C6: over any sequence of calls, from any state and whatever the environment does, the
  ids taken from the queue, in the order taken, followed by what is left in the queue,
  are exactly the initial queue followed by the ids appended, in the order appended.
  So ids leave in the order they entered: \<^verbatim>\<open>process_next_task\<close> only ever removes the
  head, and \<^verbatim>\<open>add_task\<close> only ever appends at the tail.
\<close>

theorem fifo_order:
  "task_queue tm @ enqueue_log tm cs = dequeue_log tm cs @ task_queue (run tm cs)
   \<and> task_queue (step tm (Process_next e)) = drop 1 (task_queue tm)
   \<and> task_queue (step tm (Add_task f now u d))
       = task_queue tm @ enqueued tm (Add_task f now u d)"
  using run_queue [of tm cs] process_pops_head [of tm e] add_appends [of tm f now u d]
  by blast

section \<open>The report\<close>

lemma report_loop_eq:
  "report_loop ts r =
     \<lparr>processed_count = processed_count r + length (filter (\<lambda>t. status t = ST_DONE) ts),
      unprocessed_count = unprocessed_count r
         + length (filter (\<lambda>t. status t = ST_FAILED \<or> status t = ST_PENDING
                              \<or> status t = ST_IN_PROGRESS) ts),
      processed_list = processed_list r @ filter (\<lambda>t. status t = ST_DONE) ts,
      unprocessed_list = unprocessed_list r
         @ filter (\<lambda>t. status t = ST_FAILED \<or> status t = ST_PENDING
                        \<or> status t = ST_IN_PROGRESS) ts\<rparr>"
proof (induction ts arbitrary: r)
  case Nil
  show ?case by simp
next
  case (Cons t ts)
  show ?case
    using status_literals_distinct by (simp add: Cons.IH)
qed

lemma known_statuses_split:
  "length (filter (\<lambda>t. status t = ST_DONE) ts)
     + length (filter (\<lambda>t. status t = ST_FAILED \<or> status t = ST_PENDING
                          \<or> status t = ST_IN_PROGRESS) ts)
   = length (filter (\<lambda>t. known_status (status t)) ts)"
  using status_literals_distinct by (induction ts) (auto simp: known_status_def)

lemma length_filter_sorted:
  "length (filter P (sort_key task_id ts)) = length (filter P ts)"
  by (simp add: filter_sort)

lemma all_known_filter:
  "\<forall>t\<in>set ts. known_status (status t) \<Longrightarrow> filter (\<lambda>t. known_status (status t)) ts = ts"
  by (induction ts) simp_all

text \<open>
  C9, as the code has it: when the SELECT does not raise, \<^verbatim>\<open>generate_report\<close> takes the
  tasks in order of id; the list of processed tasks is exactly the rows with the done
  status and the list of unprocessed tasks exactly the rows with the failed, waiting or
  in-progress status. A row with any other status text is in neither list, so the two
  lengths (and the two counters) add up to the number of rows whose status is one of the
  four literals; that is the number of all rows when every row has one of the four.
\<close>

theorem report_partition:
  assumes "\<not> raises"
  shows "processed_list (TaskManager_generate_report raises tm)
           = filter (\<lambda>t. status t = ST_DONE) (sort_key task_id (tasks (db_manager tm)))
       \<and> unprocessed_list (TaskManager_generate_report raises tm)
           = filter (\<lambda>t. status t = ST_FAILED \<or> status t = ST_PENDING \<or> status t = ST_IN_PROGRESS)
               (sort_key task_id (tasks (db_manager tm)))
       \<and> length (processed_list (TaskManager_generate_report raises tm))
           + length (unprocessed_list (TaskManager_generate_report raises tm))
           = length (filter (\<lambda>t. known_status (status t)) (tasks (db_manager tm)))
       \<and> processed_count (TaskManager_generate_report raises tm)
           = length (processed_list (TaskManager_generate_report raises tm))
       \<and> unprocessed_count (TaskManager_generate_report raises tm)
           = length (unprocessed_list (TaskManager_generate_report raises tm))
       \<and> ((\<forall>t\<in>set (tasks (db_manager tm)). known_status (status t)) \<longrightarrow>
            length (processed_list (TaskManager_generate_report raises tm))
              + length (unprocessed_list (TaskManager_generate_report raises tm))
              = length (tasks (db_manager tm)))"
proof -
  let ?ts = "tasks (db_manager tm)"
  let ?all = "sort_key task_id ?ts"
  let ?D = "\<lambda>t. status t = ST_DONE"
  let ?U = "\<lambda>t. status t = ST_FAILED \<or> status t = ST_PENDING \<or> status t = ST_IN_PROGRESS"
  have all: "DBManager_get_all_tasks raises (db_manager tm) = ?all"
    using assms by (simp add: DBManager_get_all_tasks_def execute_select_all_def)
  have p: "processed_list (TaskManager_generate_report raises tm) = filter ?D ?all"
    and u: "unprocessed_list (TaskManager_generate_report raises tm) = filter ?U ?all"
    and pc: "processed_count (TaskManager_generate_report raises tm) = length (filter ?D ?all)"
    and uc: "unprocessed_count (TaskManager_generate_report raises tm) = length (filter ?U ?all)"
    by (simp_all add: TaskManager_generate_report_def all report_loop_eq)
  have "length (filter ?D ?all) + length (filter ?U ?all)
          = length (filter ?D ?ts) + length (filter ?U ?ts)"
    by (simp only: length_filter_sorted)
  also have "\<dots> = length (filter (\<lambda>t. known_status (status t)) ?ts)"
    by (rule known_statuses_split)
  finally have sum: "length (filter ?D ?all) + length (filter ?U ?all)
          = length (filter (\<lambda>t. known_status (status t)) ?ts)" .
  have tot: "(\<forall>t\<in>set ?ts. known_status (status t)) \<longrightarrow>
               length (filter ?D ?all) + length (filter ?U ?all) = length ?ts"
    using sum all_known_filter [of ?ts] by simp
  show ?thesis
    unfolding p u pc uc using sum tot by blast
qed

theorem report_partition_witness:
  "processed_list (TaskManager_generate_report False mixed_store)
     = [\<lparr>task_id = 1, user = ''UserA'', description = ''report'',
            status = ST_DONE, timestamp = Some ''t0''\<rparr>]
   \<and> unprocessed_list (TaskManager_generate_report False mixed_store)
     = [\<lparr>task_id = 2, user = ''UserB'', description = ''project'',
            status = ST_FAILED, timestamp = Some ''t1''\<rparr>,
        \<lparr>task_id = 3, user = ''UserC'', description = ''email'',
            status = ST_PENDING, timestamp = Some ''t2''\<rparr>]
   \<and> length (processed_list (TaskManager_generate_report False mixed_store))
       + length (unprocessed_list (TaskManager_generate_report False mixed_store)) = 3"
proof -
  have h: "\<forall>t\<in>set (tasks (db_manager mixed_store)). known_status (status t)"
    by (simp add: mixed_store_def known_status_def)
  have l: "length (tasks (db_manager mixed_store)) = 3" by (simp add: mixed_store_def)
  have d: "ST_FAILED \<noteq> ST_DONE" "ST_PENDING \<noteq> ST_DONE" "ST_DONE \<noteq> ST_FAILED"
          "ST_DONE \<noteq> ST_PENDING" "ST_DONE \<noteq> ST_IN_PROGRESS"
    using status_literals_distinct by simp_all
  have s: "sort_key task_id (tasks (db_manager mixed_store)) =
     [\<lparr>task_id = 1, user = ''UserA'', description = ''report'',
            status = ST_DONE, timestamp = Some ''t0''\<rparr>,
      \<lparr>task_id = 2, user = ''UserB'', description = ''project'',
            status = ST_FAILED, timestamp = Some ''t1''\<rparr>,
      \<lparr>task_id = 3, user = ''UserC'', description = ''email'',
            status = ST_PENDING, timestamp = Some ''t2''\<rparr>]"
    by (simp add: mixed_store_def)
  from report_partition [of False mixed_store] h l show ?thesis
    by (simp add: s d)
qed

text \<open>
  C9 as stated fails: \<^verbatim>\<open>DBManager.add_task\<close> takes any status text, and a table can
  hold one that is none of the four. The \<^verbatim>\<open>elif\<close> chain has no \<^verbatim>\<open>else\<close>, so that
  task is in neither list: here the table has one task and both lists are empty.
\<close>

theorem report_unknown_status_counterexample:
  "DBManager_add_task No_fault ''t0'' \<lparr>tasks = [], sqlite_sequence = 0\<rparr> ''UserA'' ''report''
       ''Archived'' = (db_manager archived_store, Some 1)
   \<and> length (tasks (db_manager archived_store)) = 1
   \<and> processed_list (TaskManager_generate_report False archived_store) = []
   \<and> unprocessed_list (TaskManager_generate_report False archived_store) = []"
proof -
  have ne: "''Archived'' \<noteq> ST_DONE" "''Archived'' \<noteq> ST_FAILED" "''Archived'' \<noteq> ST_PENDING"
    "''Archived'' \<noteq> ST_IN_PROGRESS"
    by (simp_all add: ST_PENDING_def ST_IN_PROGRESS_def ST_DONE_def ST_FAILED_def)
  show ?thesis
    by (simp add: add_task_result new_rowid_def archived_store_def TaskManager_generate_report_def
        DBManager_get_all_tasks_def execute_select_all_def ne)
qed

section \<open>Processing a task that is there\<close>



lemma process_found:
  assumes "task_queue tm = i # rest"
    and "DBManager_get_task_by_id (select_raises e) (db_manager tm) i = Some t"
  shows "TaskManager_process_next_task e tm =
           (tm\<lparr>db_manager :=
                 fst (DBManager_update_task_status (update2_fault e)
                        (fst (DBManager_update_task_status (update1_fault e) (db_manager tm) i
                                ST_IN_PROGRESS))
                        i (if rand e < 8 / 10 then ST_DONE else ST_FAILED)),
               task_queue := rest\<rparr>, True)"
  using assms by (simp add: TaskManager_process_next_task_def Let_def)

lemma process_not_found:
  assumes "task_queue tm = i # rest"
    and "DBManager_get_task_by_id (select_raises e) (db_manager tm) i = None"
  shows "TaskManager_process_next_task e tm = (tm\<lparr>task_queue := rest\<rparr>, False)"
  using assms by (simp add: TaskManager_process_next_task_def)







section \<open>Storage failures\<close>




section \<open>Statuses only move forward\<close>





lemma update_length:
  "length (tasks (fst (DBManager_update_task_status f db i st))) = length (tasks db)"
  by (simp add: update_tasks)

lemma update_row:
  assumes "k < length (tasks db)"
  shows "tasks (fst (DBManager_update_task_status f db i st)) ! k =
           (if f = Execute_raises \<or> task_id (tasks db ! k) \<noteq> i then tasks db ! k
            else (tasks db ! k)\<lparr>status := st\<rparr>)"
  using assms by (simp add: update_tasks)


lemma update_row_status:
  assumes "k < length (tasks db)"
  shows "status (tasks (fst (DBManager_update_task_status f db i st)) ! k) =
           (if f = Execute_raises \<or> task_id (tasks db ! k) \<noteq> i
            then status (tasks db ! k) else st)"
  using assms by (simp add: update_row)


text \<open>The three ways a call of process_next_task can go.\<close>

lemma process_cases:
  "(task_queue tm = [] \<and> fst (TaskManager_process_next_task e tm) = tm)
   \<or> (\<exists>i rest. task_queue tm = i # rest
         \<and> fst (TaskManager_process_next_task e tm) = tm\<lparr>task_queue := rest\<rparr>)
   \<or> (\<exists>i rest r1 r2 st. task_queue tm = i # rest \<and> terminal st
         \<and> fst (TaskManager_process_next_task e tm) =
             tm\<lparr>db_manager := fst (DBManager_update_task_status r2
                                   (fst (DBManager_update_task_status r1 (db_manager tm) i
                                           ST_IN_PROGRESS)) i st),
                task_queue := rest\<rparr>)"
proof (cases "task_queue tm")
  case Nil
  then show ?thesis by (simp add: TaskManager_process_next_task_def)
next
  case (Cons i rest)
  show ?thesis
  proof (cases "DBManager_get_task_by_id (select_raises e) (db_manager tm) i")
    case None
    from process_not_found [OF Cons None] Cons show ?thesis by simp
  next
    case (Some t)
    define st where "st = (if rand e < 8 / 10 then ST_DONE else ST_FAILED)"
    have a: "terminal st" by (simp add: st_def terminal_def)
    have b: "fst (TaskManager_process_next_task e tm) =
             tm\<lparr>db_manager := fst (DBManager_update_task_status (update2_fault e)
                                   (fst (DBManager_update_task_status (update1_fault e)
                                           (db_manager tm) i ST_IN_PROGRESS)) i st),
                task_queue := rest\<rparr>"
      by (simp add: process_found [OF Cons Some] st_def)
    from Cons a b show ?thesis by blast
  qed
qed

lemma add_cases:
  "TaskManager_add_task f now tm u d = tm
   \<or> TaskManager_add_task f now tm u d =
        tm\<lparr>db_manager := (db_manager tm)\<lparr>tasks := tasks (db_manager tm) @
                     [\<lparr>task_id = new_rowid (db_manager tm), user = u, description = d,
                       status = ST_PENDING, timestamp = Some now\<rparr>],
                   sqlite_sequence := new_rowid (db_manager tm)\<rparr>,
            task_queue := task_queue tm @ [new_rowid (db_manager tm)]\<rparr>
   \<or> (f = Commit_raises \<and> TaskManager_add_task f now tm u d =
        tm\<lparr>db_manager := (db_manager tm)\<lparr>tasks := tasks (db_manager tm) @
                     [\<lparr>task_id = new_rowid (db_manager tm), user = u, description = d,
                       status = ST_PENDING, timestamp = Some now\<rparr>],
                   sqlite_sequence := new_rowid (db_manager tm)\<rparr>\<rparr>)"
  by (cases f) (simp_all add: TaskManager_add_task_def add_task_result)
























section \<open>Queue and table in step\<close>




















section \<open>The statuses the program writes\<close>

text \<open>
  The calls of the \<^verbatim>\<open>TaskManager\<close> write no status but the four literals, so a table
  that has only those keeps only those; this is the case of every table these calls have
  built from an empty file.
\<close>

lemma update_known_statuses:
  assumes "\<forall>t\<in>set (tasks db). known_status (status t)" and "known_status st"
  shows "\<forall>t\<in>set (tasks (fst (DBManager_update_task_status f db i st))). known_status (status t)"
proof
  fix t assume "t \<in> set (tasks (fst (DBManager_update_task_status f db i st)))"
  then obtain k where k: "k < length (tasks db)"
    and t: "t = tasks (fst (DBManager_update_task_status f db i st)) ! k"
    by (auto simp: in_set_conv_nth update_length)
  from k assms(1) have "known_status (status (tasks db ! k))" by simp
  with assms(2) show "known_status (status t)"
    unfolding t update_row_status [OF k] by simp
qed

lemma step_known_statuses:
  assumes "\<forall>t\<in>set (tasks (db_manager tm)). known_status (status t)"
  shows "\<forall>t\<in>set (tasks (db_manager (step tm c))). known_status (status t)"
proof (cases c)
  case (Add_task f now u d)
  have "known_status ST_PENDING" by (simp add: known_status_def)
  with add_cases [of f now tm u d] assms Add_task show ?thesis by auto
next
  case (Process_next e)
  from process_cases [of tm e] consider
    (same) "db_manager (fst (TaskManager_process_next_task e tm)) = db_manager tm"
    | (found) i r1 r2 st where "terminal st"
        "db_manager (fst (TaskManager_process_next_task e tm)) =
           fst (DBManager_update_task_status r2
                  (fst (DBManager_update_task_status r1 (db_manager tm) i ST_IN_PROGRESS)) i st)"
    by force
  then show ?thesis
  proof cases
    case same
    with assms Process_next show ?thesis by simp
  next
    case found
    from found(1) have st: "known_status st"
      by (auto simp: terminal_def known_status_def)
    have "known_status ST_IN_PROGRESS" by (simp add: known_status_def)
    from update_known_statuses [OF assms this]
    have "\<forall>t\<in>set (tasks (fst (DBManager_update_task_status r1 (db_manager tm) i ST_IN_PROGRESS))).
            known_status (status t)" .
    from update_known_statuses [OF this st]
    show ?thesis using Process_next by (simp add: found(2))
  qed
qed

lemma run_known_statuses:
  "\<forall>t\<in>set (tasks (db_manager tm)). known_status (status t)
   \<Longrightarrow> \<forall>t\<in>set (tasks (db_manager (run tm cs))). known_status (status t)"
proof (induction cs arbitrary: tm)
  case Nil
  then show ?case by simp
next
  case (Cons c cs)
  from step_known_statuses [OF Cons.prems]
  have "\<forall>t\<in>set (tasks (db_manager (step tm c))). known_status (status t)" .
  from Cons.IH [OF this] show ?case by simp
qed

lemma empty_system_known_statuses:
  "\<forall>t\<in>set (tasks (db_manager (run empty_system cs))). known_status (status t)"
  by (rule run_known_statuses) (simp add: empty_system_def)


end
